theory Spec2Isabelle
  imports Main "HOL-Library.Word" "HOL-Library.Sublist"
begin

section \<open>Values of the JavaScript runtime\<close>

text \<open>
  The corpus library is \<^verbatim>\<open>src/libs/common-corpus/lambda-index.js\<close>. Path and
  document names are modelled as \<^typ>\<open>string\<close>; the content of a file is a list of
  bytes, and a decoded text is a list of UTF-16 code units, as a JavaScript string is.
  A thrown exception is the \<open>Inl\<close> of a sum.
\<close>

type_synonym bytes = "8 word list"
type_synonym jstring = "16 word list"

datatype js_error =
    TypeError
  | SyntaxError
  | Errno string
  | Error string

text \<open>
  What the library calls but does not define: \<^verbatim>\<open>fs.readFileSync\<close>, the two
  helpers \<^verbatim>\<open>./lib/debreak\<close> and \<^verbatim>\<open>./lib/textutil\<close>, which live in files of
  their own, and \<^verbatim>\<open>require\<close> on a sentence module. Each is a parameter, and each
  may throw.
\<close>

record runtime =
  readFileSync :: "string \<Rightarrow> js_error + bytes"
  debreak :: "jstring \<Rightarrow> js_error + jstring"
  sentencify :: "jstring \<Rightarrow> js_error + jstring list"
  require_module :: "string \<Rightarrow> js_error + jstring list"

section \<open>Configuration\<close>

text \<open>
  \<^verbatim>\<open>const config = { maxCacheSize: options.maxCacheSize || 10,
                    isLambda: !!process.env.AWS_LAMBDA_FUNCTION_NAME, ...options }\<close>
  An option is \<open>None\<close> when the caller's object has no such property. The capacity
  is an integer-valued number. The spread comes last, so a property the caller gave
  replaces the default computed before it.
\<close>

record options =
  opt_maxCacheSize :: "int option"
  opt_isLambda :: "bool option"

record environment =
  AWS_LAMBDA_FUNCTION_NAME :: "string option"
  CORPUS_PATH :: "string option"
  default_corpus :: string

record config =
  maxCacheSize :: int
  isLambda :: bool

definition truthy_string :: "string option \<Rightarrow> bool" where
  "truthy_string v = (case v of None \<Rightarrow> False | Some s \<Rightarrow> s \<noteq> [])"

definition make_config :: "environment \<Rightarrow> options \<Rightarrow> config" where
  "make_config env opts =
     (let m0 = (case opt_maxCacheSize opts of
                  None \<Rightarrow> 10
                | Some n \<Rightarrow> (if n = 0 then 10 else n));
          l0 = truthy_string (AWS_LAMBDA_FUNCTION_NAME env)
      in \<lparr> maxCacheSize = (case opt_maxCacheSize opts of None \<Rightarrow> m0 | Some n \<Rightarrow> n),
           isLambda = (case opt_isLambda opts of None \<Rightarrow> l0 | Some b \<Rightarrow> b) \<rparr>)"

definition getCorpusPath :: "environment \<Rightarrow> config \<Rightarrow> string" where
  "getCorpusPath env cfg =
     (if isLambda cfg then ''/opt/nodejs/node_modules/common-corpus/corpus-extracted''
      else if truthy_string (CORPUS_PATH env) then (case CORPUS_PATH env of Some p \<Rightarrow> p | None \<Rightarrow> [])
      else default_corpus env)"

section \<open>Strings and paths\<close>

text \<open>\<^verbatim>\<open>s.indexOf(pat) > -1\<close>: \<open>pat\<close> occurs in \<open>s\<close> as a contiguous substring.\<close>

fun has_substring :: "string \<Rightarrow> string \<Rightarrow> bool" where
  "has_substring pat [] = (pat = [])"
| "has_substring pat (c # cs) = (prefix pat (c # cs) \<or> has_substring pat cs)"

text \<open>\<^verbatim>\<open>s.replace(pat, '')\<close> with a string pattern: the first occurrence is removed.\<close>

fun remove_first :: "string \<Rightarrow> string \<Rightarrow> string" where
  "remove_first pat [] = []"
| "remove_first pat (c # cs) =
     (if prefix pat (c # cs) then drop (length pat) (c # cs) else c # remove_first pat cs)"

text \<open>
  \<^verbatim>\<open>path.basename\<close> on a POSIX system: trailing slashes are dropped, the result is
  what follows the last remaining slash.
\<close>

definition basename :: "string \<Rightarrow> string" where
  "basename p =
     rev (takeWhile (\<lambda>c. c \<noteq> CHR ''/'') (dropWhile (\<lambda>c. c = CHR ''/'') (rev p)))"

definition strip_extension :: "string \<Rightarrow> string" where
  "strip_extension n =
     (if suffix ''.txt'' n then take (length n - 4) n
      else if suffix ''.js'' n then take (length n - 3) n
      else if suffix ''.zip'' n then take (length n - 4) n
      else if suffix ''.7z'' n then take (length n - 3) n
      else n)"

definition strip_leading_separator :: "string \<Rightarrow> string" where
  "strip_leading_separator n =
     (case n of [] \<Rightarrow> [] | c # cs \<Rightarrow> (if c = CHR ''/'' \<or> c = CHR 0x5C then cs else n))"

text \<open>
  \<^verbatim>\<open>name.replace(/\.(txt|js|zip|7z)$/g, '').replace(root, '').replace(/^[\/\\]/, '')\<close>
\<close>

definition cleanName :: "string \<Rightarrow> string \<Rightarrow> string" where
  "cleanName root n = strip_leading_separator (remove_first root (strip_extension n))"

section \<open>The text loader\<close>

definition decode_latin1 :: "bytes \<Rightarrow> jstring" where
  "decode_latin1 bs = map ucast bs"

definition strip_bom :: "jstring \<Rightarrow> jstring" where
  "strip_bom book = (case book of [] \<Rightarrow> [] | c # cs \<Rightarrow> (if c = 0xFEFF then cs else book))"

text \<open>
  \<^verbatim>\<open>try { body } catch (error) { handler }\<close>: the handler replaces an exception
  of the body, and may throw itself.
\<close>

definition try_catch :: "(js_error + 'a) \<Rightarrow> (js_error \<Rightarrow> js_error + 'a) \<Rightarrow> js_error + 'a" where
  "try_catch body handler = (case body of Inl e \<Rightarrow> handler e | Inr v \<Rightarrow> Inr v)"

text \<open>
  \<^verbatim>\<open>gettext\<close>: read, decode as ISO8859-1, drop a leading U+FEFF, debreak. Every
  exception inside the \<^verbatim>\<open>try\<close> is replaced by
  \<^verbatim>\<open>new Error(`Failed to read text file: ${path.basename(filename)}`)\<close>.
\<close>

definition gettext :: "runtime \<Rightarrow> string \<Rightarrow> js_error + jstring" where
  "gettext rt filename =
     try_catch
       (case readFileSync rt filename of
          Inl e \<Rightarrow> Inl e
        | Inr bs \<Rightarrow> debreak rt (strip_bom (decode_latin1 bs)))
       (\<lambda>error. Inl (Error (''Failed to read text file: '' @ basename filename)))"

section \<open>The cache\<close>

text \<open>
  \<^verbatim>\<open>textCache\<close> is a JavaScript \<^verbatim>\<open>Map\<close>: it iterates its keys in the order of
  their first insertion, so it is an association list, oldest key first.
\<close>

type_synonym cache = "(string \<times> jstring) list"

definition map_get :: "string \<Rightarrow> cache \<Rightarrow> jstring option" where
  "map_get k m = map_of m k"

definition map_keys :: "cache \<Rightarrow> string list" where
  "map_keys m = map fst m"

definition map_size :: "cache \<Rightarrow> int" where
  "map_size m = int (length m)"

definition map_delete :: "string \<Rightarrow> cache \<Rightarrow> cache" where
  "map_delete k m = filter (\<lambda>kv. fst kv \<noteq> k) m"

definition map_set :: "string \<Rightarrow> jstring \<Rightarrow> cache \<Rightarrow> cache" where
  "map_set k v m =
     (if k \<in> set (map_keys m) then map (\<lambda>kv. if fst kv = k then (k, v) else kv) m
      else m @ [(k, v)])"

text \<open>
  \<^verbatim>\<open>textCache.keys().next().value\<close> is \<^verbatim>\<open>undefined\<close> on an empty map, and deleting
  \<^verbatim>\<open>undefined\<close> removes nothing.
\<close>

definition delete_first_key :: "cache \<Rightarrow> cache" where
  "delete_first_key m = (case map_keys m of [] \<Rightarrow> m | firstKey # _ \<Rightarrow> map_delete firstKey m)"

text \<open>
  \<^verbatim>\<open>getCachedText\<close>. \<^verbatim>\<open>textCache.has(cacheKey)\<close> followed by
  \<^verbatim>\<open>textCache.get(cacheKey)\<close> is the one lookup \<open>map_get\<close>. The function returns
  the value or the exception, and the cache as it has left it.
\<close>

definition getCachedText :: "runtime \<Rightarrow> config \<Rightarrow> string \<Rightarrow> cache \<Rightarrow> (js_error + jstring) \<times> cache" where
  "getCachedText rt cfg filename textCache =
     (let cacheKey = basename filename in
      case map_get cacheKey textCache of
        Some t \<Rightarrow> (Inr t, textCache)
      | None \<Rightarrow>
          (case gettext rt filename of
             Inl e \<Rightarrow> (Inl e, textCache)
           | Inr t \<Rightarrow>
               (let c1 = (if map_size textCache \<ge> maxCacheSize cfg
                          then delete_first_key textCache else textCache)
                in (Inr t, map_set cacheKey t c1))))"

text \<open>A sequence of \<^verbatim>\<open>text()\<close> calls on raw-text documents, given by their file paths.\<close>

fun loads :: "runtime \<Rightarrow> config \<Rightarrow> string list \<Rightarrow> cache \<Rightarrow> cache" where
  "loads rt cfg [] c = c"
| "loads rt cfg (f # fs) c = loads rt cfg fs (snd (getCachedText rt cfg f c))"

section \<open>The directory scanner\<close>

text \<open>
  The directory tree as \<^verbatim>\<open>fs.readdirSync\<close> and \<^verbatim>\<open>fs.statSync\<close> see it. Reading
  succeeds on a \<open>Directory\<close> only; \<open>Unreadable\<close> is a directory whose listing
  throws, \<open>Missing\<close> a path on which both calls throw (it does not exist, or it is a
  dangling link).
\<close>

datatype fsnode =
    RegularFile
  | Directory "(string \<times> fsnode) list"
  | Unreadable
  | Missing

definition with_trailing_slash :: "string \<Rightarrow> string" where
  "with_trailing_slash dir = (if dir = [] \<or> last dir \<noteq> CHR ''/'' then dir @ ''/'' else dir)"

text \<open>
  \<^verbatim>\<open>filelist.push(fullPath)\<close>; on \<^verbatim>\<open>undefined\<close> it is a TypeError, which the
  \<^verbatim>\<open>try\<close> around the body of the callback catches.
\<close>

definition push :: "string \<Rightarrow> string list option \<Rightarrow> string list option" where
  "push p filelist = (case filelist of None \<Rightarrow> None | Some l \<Rightarrow> Some (l @ [p]))"

text \<open>\<^verbatim>\<open>file.match(/\.(zip|7z)$/)\<close>\<close>

definition is_archive :: "string \<Rightarrow> bool" where
  "is_archive file = (suffix ''.zip'' file \<or> suffix ''.7z'' file)"

text \<open>
  \<^verbatim>\<open>walkSync(dir, filelist)\<close>; \<open>None\<close> is \<^verbatim>\<open>undefined\<close>, the value of the
  parameter the constructor leaves out. \<open>forEach_file\<close> is the
  \<^verbatim>\<open>files.forEach\<close> callback run over the listing.
\<close>

fun walkSync :: "config \<Rightarrow> string \<Rightarrow> fsnode \<Rightarrow> string list option \<Rightarrow> string list option"
  and forEach_file :: "config \<Rightarrow> string \<Rightarrow> (string \<times> fsnode) list \<Rightarrow> string list option \<Rightarrow> string list option"
where
  "walkSync cfg dir (Directory files) filelist =
     (let dir1 = with_trailing_slash dir;
          filelist1 = Some (case filelist of None \<Rightarrow> [] | Some l \<Rightarrow> l)
      in if \<not> has_substring ''###'' dir1 then forEach_file cfg dir1 files filelist1
         else filelist1)"
| "walkSync cfg dir RegularFile filelist = filelist"
| "walkSync cfg dir Unreadable filelist = filelist"
| "walkSync cfg dir Missing filelist = filelist"
| "forEach_file cfg dir [] filelist = filelist"
| "forEach_file cfg dir ((file, node) # rest) filelist =
     forEach_file cfg dir rest
       (case node of
          Missing \<Rightarrow> filelist
        | RegularFile \<Rightarrow>
            (if isLambda cfg \<and> is_archive file then filelist else push (dir @ file) filelist)
        | Directory sub \<Rightarrow> walkSync cfg (dir @ file @ ''/'') node filelist
        | Unreadable \<Rightarrow> walkSync cfg (dir @ file @ ''/'') node filelist)"

section \<open>Document descriptors and the constructor\<close>

datatype kind = PresegmentedSentences | RawText

text \<open>
  An entry of \<^verbatim>\<open>texts\<close>: its \<^verbatim>\<open>name\<close>, and what its two closures hold, the path
  and which of the two branches of the loop built them.
\<close>

record descriptor =
  name :: string
  filename :: string
  kind :: kind

definition make_descriptor :: "string \<Rightarrow> string \<Rightarrow> descriptor" where
  "make_descriptor root f =
     \<lparr> name = cleanName root f,
       filename = f,
       kind = (if has_substring ''sentences'' f then PresegmentedSentences else RawText) \<rparr>"

record corpora =
  texts :: "descriptor list"
  corpus_config :: config
  corpus_root :: string
  textCache :: cache

text \<open>
  The constructor. \<^verbatim>\<open>books.length\<close> is evaluated outside every \<^verbatim>\<open>try\<close>: on
  \<^verbatim>\<open>undefined\<close> it throws a TypeError out of the constructor.
\<close>

definition Corpora :: "environment \<Rightarrow> fsnode \<Rightarrow> options \<Rightarrow> js_error + corpora" where
  "Corpora env fsroot opts =
     (let cfg = make_config env opts;
          root = getCorpusPath env cfg;
          books = walkSync cfg root fsroot None
      in case books of
           None \<Rightarrow> Inl TypeError
         | Some bs \<Rightarrow>
             Inr \<lparr> texts = map (make_descriptor root) bs,
                   corpus_config = cfg,
                   corpus_root = root,
                   textCache = [] \<rparr>)"

text \<open>\<^verbatim>\<open>array.join('\n')\<close>\<close>

fun join_lines :: "jstring list \<Rightarrow> jstring" where
  "join_lines [] = []"
| "join_lines [s] = s"
| "join_lines (s # t # ts) = s @ [0x0A] @ join_lines (t # ts)"

text \<open>The accessor \<^verbatim>\<open>text()\<close> of a descriptor, with the cache as it leaves it.\<close>

definition text_of :: "runtime \<Rightarrow> config \<Rightarrow> descriptor \<Rightarrow> cache \<Rightarrow> (js_error + jstring) \<times> cache" where
  "text_of rt cfg d c =
     (case kind d of
        PresegmentedSentences \<Rightarrow>
          (try_catch
             (case require_module rt (filename d) of
                Inl e \<Rightarrow> Inl e
              | Inr ss \<Rightarrow> Inr (join_lines ss))
             (\<lambda>error. Inr []), c)
      | RawText \<Rightarrow> getCachedText rt cfg (filename d) c)"

text \<open>The accessor \<^verbatim>\<open>sentences()\<close>.\<close>

definition sentences_of :: "runtime \<Rightarrow> config \<Rightarrow> descriptor \<Rightarrow> cache \<Rightarrow> (js_error + jstring list) \<times> cache" where
  "sentences_of rt cfg d c =
     (case kind d of
        PresegmentedSentences \<Rightarrow>
          (try_catch (require_module rt (filename d)) (\<lambda>error. Inr []), c)
      | RawText \<Rightarrow>
          (let r = getCachedText rt cfg (filename d) c
           in (try_catch
                 (case fst r of Inl e \<Rightarrow> Inl e | Inr t \<Rightarrow> sentencify rt t)
                 (\<lambda>error. Inr []), snd r)))"

definition clearCache :: "cache \<Rightarrow> cache" where
  "clearCache c = []"

section \<open>Filtering by name\<close>

text \<open>
  The regular expressions are the runtime's. \<open>RegExp\<close> is
  \<^verbatim>\<open>new RegExp(pattern, flags)\<close>; what it returns is a matcher, which at a start index
  of a string succeeds or fails.
\<close>

record 'r regexp_engine =
  RegExp :: "string \<Rightarrow> string \<Rightarrow> js_error + 'r"
  matcher :: "'r \<Rightarrow> string \<Rightarrow> nat \<Rightarrow> js_error + bool"

text \<open>
  \<^verbatim>\<open>s.match(r) !== null\<close> for an expression without the flags \<^verbatim>\<open>g\<close> and
  \<^verbatim>\<open>y\<close>: the search starts at index 0 and tries the matcher at every start index up
  to the length of the string, until it succeeds.
\<close>

fun exec_loop :: "(nat \<Rightarrow> js_error + bool) \<Rightarrow> nat list \<Rightarrow> js_error + bool" where
  "exec_loop m [] = Inr False"
| "exec_loop m (i # js) =
     (case m i of
        Inl e \<Rightarrow> Inl e
      | Inr found \<Rightarrow> (if found then Inr True else exec_loop m js))"

definition match_found :: "'r regexp_engine \<Rightarrow> string \<Rightarrow> 'r \<Rightarrow> js_error + bool" where
  "match_found eng s r = exec_loop (matcher eng r s) [0..<Suc (length s)]"

text \<open>\<^verbatim>\<open>array.filter(callback)\<close>: an exception of the callback ends the call.\<close>

fun array_filter :: "('a \<Rightarrow> js_error + bool) \<Rightarrow> 'a list \<Rightarrow> js_error + 'a list" where
  "array_filter cb [] = Inr []"
| "array_filter cb (x # xs) =
     (case cb x of
        Inl e \<Rightarrow> Inl e
      | Inr b \<Rightarrow>
          (case array_filter cb xs of
             Inl e \<Rightarrow> Inl e
           | Inr ys \<Rightarrow> Inr (if b then x # ys else ys)))"

text \<open>
  \<^verbatim>\<open>this.filter\<close>: the pattern is compiled with the flag \<^verbatim>\<open>i\<close>, and a descriptor
  is kept when \<^verbatim>\<open>m.name.match(r) !== null\<close>.
\<close>

definition filter_texts :: "'r regexp_engine \<Rightarrow> descriptor list \<Rightarrow> string \<Rightarrow> js_error + descriptor list" where
  "filter_texts eng ts pattern =
     try_catch
       (case RegExp eng pattern ''i'' of
          Inl e \<Rightarrow> Inl e
        | Inr r \<Rightarrow>
            array_filter
              (\<lambda>m. try_catch (match_found eng (name m) r) (\<lambda>error. Inr False)) ts)
       (\<lambda>error. Inr [])"

subsection \<open>The runtime's expressions on simple patterns\<close>

text \<open>
  What ECMAScript lays down for the simplest patterns, with no flag or with the flag
  \<^verbatim>\<open>i\<close> alone: a pattern is a list of alternatives between bars, an alternative a
  list of atoms; an ordinary character stands for itself, a dot for any character but a
  line terminator, a backslash before a syntax character or a slash for that character;
  a backslash at the end, and a bracket with no closing bracket after it, are a
  SyntaxError. \<open>None\<close> is a pattern with anything else in it: nothing is said of it
  here, and \<open>with_simple_patterns\<close> leaves it to the engine it extends.
\<close>

datatype atom = Literal char | AnyChar

definition syntax_characters :: "char list" where
  "syntax_characters =
     [CHR ''^'', CHR ''$'', CHR 0x5C, CHR ''.'', CHR ''*'', CHR ''+'', CHR ''?'',
      CHR ''('', CHR '')'', CHR ''['', CHR '']'', CHR ''{'', CHR ''}'', CHR ''|'']"

fun add_atom :: "atom \<Rightarrow> (js_error + atom list list) option \<Rightarrow> (js_error + atom list list) option" where
  "add_atom a None = None"
| "add_atom a (Some (Inl e)) = Some (Inl e)"
| "add_atom a (Some (Inr [])) = Some (Inr [[a]])"
| "add_atom a (Some (Inr (alt # alts))) = Some (Inr ((a # alt) # alts))"

fun new_alternative :: "(js_error + atom list list) option \<Rightarrow> (js_error + atom list list) option" where
  "new_alternative None = None"
| "new_alternative (Some (Inl e)) = Some (Inl e)"
| "new_alternative (Some (Inr alts)) = Some (Inr ([] # alts))"

fun parse_pattern :: "string \<Rightarrow> (js_error + atom list list) option" where
  "parse_pattern [] = Some (Inr [[]])"
| "parse_pattern [c] =
     (if c = CHR 0x5C \<or> c = CHR ''['' then Some (Inl SyntaxError)
      else if c = CHR ''|'' then Some (Inr [[], []])
      else if c = CHR ''.'' then Some (Inr [[AnyChar]])
      else if c \<in> set syntax_characters then None
      else Some (Inr [[Literal c]]))"
| "parse_pattern (c # d # cs) =
     (if c = CHR 0x5C then
        (if d \<in> set syntax_characters \<or> d = CHR ''/''
         then add_atom (Literal d) (parse_pattern cs) else None)
      else if c = CHR ''['' then
        (if CHR '']'' \<notin> set (d # cs) then Some (Inl SyntaxError) else None)
      else if c = CHR ''|'' then new_alternative (parse_pattern (d # cs))
      else if c = CHR ''.'' then add_atom AnyChar (parse_pattern (d # cs))
      else if c \<in> set syntax_characters then None
      else add_atom (Literal c) (parse_pattern (d # cs)))"

text \<open>
  The canonical form of a code unit below 256 under the flag \<^verbatim>\<open>i\<close>: its upper
  case, when that is one code unit. The micro sign and the y with diaeresis have theirs
  above 255, the sharp s has none.
\<close>

definition canonicalize :: "char \<Rightarrow> nat" where
  "canonicalize c =
     (let n = (of_char c :: nat) in
      if 97 \<le> n \<and> n \<le> 122 then n - 32
      else if n = 181 then 924
      else if n = 255 then 376
      else if 224 \<le> n \<and> n \<le> 254 \<and> n \<noteq> 247 then n - 32
      else n)"

fun atom_matches :: "bool \<Rightarrow> atom \<Rightarrow> char \<Rightarrow> bool" where
  "atom_matches ignoreCase (Literal c) d =
     (if ignoreCase then canonicalize c = canonicalize d else c = d)"
| "atom_matches ignoreCase AnyChar d = (d \<noteq> CHR 0x0A \<and> d \<noteq> CHR 0x0D)"

text \<open>The atoms match the string from its start on.\<close>

fun match_here :: "bool \<Rightarrow> atom list \<Rightarrow> string \<Rightarrow> bool" where
  "match_here ignoreCase [] s = True"
| "match_here ignoreCase (a # r) [] = False"
| "match_here ignoreCase (a # r) (c # cs) =
     (atom_matches ignoreCase a c \<and> match_here ignoreCase r cs)"

text \<open>
  An engine extended by the simple patterns: on them it is as laid down above, the
  matcher succeeding at an index when one of the alternatives matches there; on every
  other pattern and on every other flag string it is the given engine.
\<close>

definition with_simple_patterns :: "'r regexp_engine \<Rightarrow> ((bool \<times> atom list list) + 'r) regexp_engine" where
  "with_simple_patterns rest =
     \<lparr> RegExp =
         (\<lambda>pattern flags.
            case (if flags = ''i'' \<or> flags = [] then parse_pattern pattern else None) of
              Some (Inl e) \<Rightarrow> Inl e
            | Some (Inr a) \<Rightarrow> Inr (Inl (flags = ''i'', a))
            | None \<Rightarrow>
                (case RegExp rest pattern flags of Inl e \<Rightarrow> Inl e | Inr r \<Rightarrow> Inr (Inr r))),
       matcher =
         (\<lambda>r s i.
            case r of
              Inl (ignoreCase, alts) \<Rightarrow>
                Inr (i \<le> length s \<and> list_ex (\<lambda>a. match_here ignoreCase a (drop i s)) alts)
            | Inr r' \<Rightarrow> matcher rest r' s i) \<rparr>"

section \<open>Example data\<close>

definition example_files :: "string \<Rightarrow> js_error + bytes" where
  "example_files p =
     (if p = ''/corpus/a.txt'' then Inr [0x61]
      else if p = ''/corpus/b.txt'' then Inr [0x62]
      else if p = ''/corpus/c.txt'' then Inr [0x63]
      else if p = ''/corpus/x/d.txt'' then Inr [0x64]
      else if p = ''/corpus/y/d.txt'' then Inr [0x65]
      else if p = ''/corpus/bom.txt'' then Inr [0xEF, 0xBB, 0xBF, 0x68, 0x69]
      else Inl (Errno ''ENOENT''))"

text \<open>
  The helpers of the example keep a text as it is and make it one sentence; the one
  sentence module holds the two sentences \<^verbatim>\<open>A.\<close> and \<^verbatim>\<open>B.\<close>
\<close>

definition example_runtime :: runtime where
  "example_runtime =
     \<lparr> readFileSync = example_files,
       debreak = (\<lambda>t. Inr t),
       sentencify = (\<lambda>t. Inr [t]),
       require_module =
         (\<lambda>p. if p = ''/corpus/sentences/harvard.js'' then Inr [[0x41, 0x2E], [0x42, 0x2E]]
              else Inl (Errno ''MODULE_NOT_FOUND'')) \<rparr>"


definition example_config :: "int \<Rightarrow> config" where
  "example_config n = \<lparr> maxCacheSize = n, isLambda = False \<rparr>"

definition example_env :: environment where
  "example_env =
     \<lparr> AWS_LAMBDA_FUNCTION_NAME = None, CORPUS_PATH = Some ''/corpus'', default_corpus = ''/app/corpus'' \<rparr>"

definition example_options :: options where
  "example_options = \<lparr> opt_maxCacheSize = Some 2, opt_isLambda = None \<rparr>"

definition example_tree :: fsnode where
  "example_tree =
     Directory
       [(''William.Gibson.Neuromancer.txt'', RegularFile),
        (''jane.austen.pride.txt'', RegularFile),
        (''sentences'', Directory [(''harvard.js'', RegularFile)])]"

text \<open>
  The engine that the examples extend. It stands for the rest of the runtime's engine,
  of which the examples use nothing, and is no model of it.
\<close>

definition example_engine :: "unit regexp_engine" where
  "example_engine =
     \<lparr> RegExp = (\<lambda>pattern flags. Inl SyntaxError), matcher = (\<lambda>r s i. Inr False) \<rparr>"

section \<open>Properties of the cache\<close>

lemma map_get_None_iff: "map_get k c = None \<longleftrightarrow> k \<notin> set (map_keys c)"
  by (simp add: map_get_def map_keys_def map_of_eq_None_iff)

lemma getCachedText_hit:
  "map_get (basename f) c = Some t \<Longrightarrow> getCachedText rt cfg f c = (Inr t, c)"
  by (simp add: getCachedText_def)

lemma getCachedText_fail:
  "map_get (basename f) c = None \<Longrightarrow> gettext rt f = Inl e \<Longrightarrow>
   getCachedText rt cfg f c = (Inl e, c)"
  by (simp add: getCachedText_def)

lemma length_delete_first_key: "c \<noteq> [] \<Longrightarrow> length (delete_first_key c) < length c"
  by (cases c) (auto simp: delete_first_key_def map_keys_def map_delete_def less_Suc_eq_le)

lemma keys_delete_first_key: "set (map_keys (delete_first_key c)) \<subseteq> set (map_keys c)"
  by (cases c) (auto simp: delete_first_key_def map_keys_def map_delete_def)

lemma map_set_fresh: "k \<notin> set (map_keys c) \<Longrightarrow> map_set k v c = c @ [(k, v)]"
  by (simp add: map_set_def)

text \<open>A miss whose read succeeds: the new entry goes to the end, after the eviction.\<close>

lemma getCachedText_miss:
  assumes "map_get (basename f) c = None" and "gettext rt f = Inr t"
  shows "getCachedText rt cfg f c =
           (Inr t, (if map_size c \<ge> maxCacheSize cfg then delete_first_key c else c)
                     @ [(basename f, t)])"
proof -
  have k: "basename f \<notin> set (map_keys c)"
    using assms(1) by (simp add: map_get_None_iff)
  then have "basename f \<notin> set (map_keys (delete_first_key c))"
    using keys_delete_first_key by blast
  with k show ?thesis
    using assms by (simp add: getCachedText_def map_set_fresh)
qed

lemma getCachedText_size:
  assumes "1 \<le> maxCacheSize cfg" and "map_size c \<le> maxCacheSize cfg"
  shows "map_size (snd (getCachedText rt cfg f c)) \<le> maxCacheSize cfg"
proof (cases "map_get (basename f) c")
  case (Some t)
  then show ?thesis using assms(2) by (simp add: getCachedText_hit)
next
  case None
  show ?thesis
  proof (cases "gettext rt f")
    case (Inl e)
    then show ?thesis using None assms(2) by (simp add: getCachedText_fail)
  next
    case (Inr t)
    show ?thesis
    proof (cases "map_size c \<ge> maxCacheSize cfg")
      case True
      then have "c \<noteq> []" using assms(1) by (auto simp: map_size_def)
      then have "length (delete_first_key c) < length c"
        by (rule length_delete_first_key)
      then show ?thesis
        using None Inr True assms(2) by (simp add: getCachedText_miss map_size_def)
    next
      case False
      then show ?thesis
        using None Inr by (simp add: getCachedText_miss map_size_def)
    qed
  qed
qed

lemma loads_size:
  "1 \<le> maxCacheSize cfg \<Longrightarrow> map_size c \<le> maxCacheSize cfg \<Longrightarrow>
   map_size (loads rt cfg fs c) \<le> maxCacheSize cfg"
  by (induction fs arbitrary: c) (simp_all add: getCachedText_size)

lemma loads_append: "loads rt cfg (fs @ gs) c = loads rt cfg gs (loads rt cfg fs c)"
  by (induction fs arbitrary: c) simp_all

text \<open>Three documents with different base names, loaded in turn with capacity 2.\<close>

lemma loads_three:
  assumes cap: "maxCacheSize cfg = 2"
    and d: "basename fa \<noteq> basename fb" "basename fa \<noteq> basename fc" "basename fb \<noteq> basename fc"
    and r: "gettext rt fa = Inr ta" "gettext rt fb = Inr tb" "gettext rt fc = Inr tc"
  shows "loads rt cfg [fa, fb] [] = [(basename fa, ta), (basename fb, tb)]"
    and "loads rt cfg [fc] [(basename fa, ta), (basename fb, tb)]
           = [(basename fb, tb), (basename fc, tc)]"
proof -
  have 1: "getCachedText rt cfg fa [] = (Inr ta, [(basename fa, ta)])"
    using cap r(1) by (simp add: getCachedText_miss map_get_def map_size_def)
  have 2: "getCachedText rt cfg fb [(basename fa, ta)]
             = (Inr tb, [(basename fa, ta), (basename fb, tb)])"
    using cap r(2) d(1) by (simp add: getCachedText_miss map_get_def map_size_def)
  have 3: "getCachedText rt cfg fc [(basename fa, ta), (basename fb, tb)]
             = (Inr tc, [(basename fb, tb), (basename fc, tc)])"
    using cap r(3) d
    by (simp add: getCachedText_miss map_get_def map_size_def delete_first_key_def
        map_keys_def map_delete_def)
  show "loads rt cfg [fa, fb] [] = [(basename fa, ta), (basename fb, tb)]"
    by (simp add: 1 2)
  show "loads rt cfg [fc] [(basename fa, ta), (basename fb, tb)]
          = [(basename fb, tb), (basename fc, tc)]"
    by (simp add: 3)
qed

lemma example_gettext:
  "gettext example_runtime ''/corpus/a.txt'' = Inr [0x61]"
  "gettext example_runtime ''/corpus/b.txt'' = Inr [0x62]"
  "gettext example_runtime ''/corpus/c.txt'' = Inr [0x63]"
  by (simp_all add: gettext_def example_runtime_def example_files_def try_catch_def
      decode_latin1_def strip_bom_def)

lemma example_basename:
  "basename ''/corpus/a.txt'' = ''a.txt''"
  "basename ''/corpus/b.txt'' = ''b.txt''"
  "basename ''/corpus/c.txt'' = ''c.txt''"
  by (simp_all add: basename_def)

text \<open>
  C1 (as amended): for every capacity of at least 1 and every sequence of text() loads,
  from a cache within the capacity, the number of entries stays at most the capacity;
  with capacity 2, loading three documents with different base names in turn leaves
  exactly the entries of the second and the third.
\<close>

theorem cache_capacity_invariant:
  assumes "1 \<le> maxCacheSize cfg" and "map_size c \<le> maxCacheSize cfg"
  shows "map_size (loads rt cfg fs c) \<le> maxCacheSize cfg \<and>
         (maxCacheSize cfg = 2 \<longrightarrow>
          basename fa \<noteq> basename fb \<longrightarrow> basename fa \<noteq> basename fc \<longrightarrow>
          basename fb \<noteq> basename fc \<longrightarrow>
          gettext rt fa = Inr ta \<longrightarrow> gettext rt fb = Inr tb \<longrightarrow> gettext rt fc = Inr tc \<longrightarrow>
          loads rt cfg [fa, fb, fc] [] = [(basename fb, tb), (basename fc, tc)])"
proof (intro conjI impI)
  show "map_size (loads rt cfg fs c) \<le> maxCacheSize cfg"
    using assms by (rule loads_size)
next
  assume h: "maxCacheSize cfg = 2" "basename fa \<noteq> basename fb" "basename fa \<noteq> basename fc"
    "basename fb \<noteq> basename fc" "gettext rt fa = Inr ta" "gettext rt fb = Inr tb"
    "gettext rt fc = Inr tc"
  have "loads rt cfg ([fa, fb] @ [fc]) [] = [(basename fb, tb), (basename fc, tc)]"
    unfolding loads_append using loads_three [OF h] by simp
  then show "loads rt cfg [fa, fb, fc] [] = [(basename fb, tb), (basename fc, tc)]"
    by simp
qed

theorem cache_capacity_invariant_witness:
  "map_size (loads example_runtime (example_config 2)
               [''/corpus/a.txt'', ''/corpus/b.txt'', ''/corpus/c.txt''] []) \<le> 2 \<and>
   loads example_runtime (example_config 2)
     [''/corpus/a.txt'', ''/corpus/b.txt'', ''/corpus/c.txt''] []
     = [(''b.txt'', [0x62]), (''c.txt'', [0x63])]"
  using cache_capacity_invariant [of "example_config 2" "[]" example_runtime
      "[''/corpus/a.txt'', ''/corpus/b.txt'', ''/corpus/c.txt'']"
      "''/corpus/a.txt''" "''/corpus/b.txt''" "''/corpus/c.txt''" "[0x61]" "[0x62]" "[0x63]"]
  by (simp add: example_gettext example_basename example_config_def map_size_def)

text \<open>With the capacity 0 one load leaves one entry in the cache.\<close>

theorem cache_capacity_counterexample:
  "\<not> map_size (loads example_runtime
                  (make_config example_env \<lparr> opt_maxCacheSize = Some 0, opt_isLambda = None \<rparr>)
                  [''/corpus/a.txt''] [])
       \<le> maxCacheSize
            (make_config example_env \<lparr> opt_maxCacheSize = Some 0, opt_isLambda = None \<rparr>)"
  by (simp add: make_config_def example_env_def truthy_string_def getCachedText_miss
      example_gettext map_get_def map_size_def delete_first_key_def map_keys_def)

text \<open>
  C2: a hit returns the cached text and leaves the cache as it is, keys and order, so a
  load that hits can be dropped from any sequence of loads without changing the cache;
  with capacity 2, after loading a, b, a again (a hit) and then c, the cache holds b and
  c: a, the oldest insertion, is the one evicted.
\<close>

theorem eviction_ignores_access:
  "(map_get (basename f) c = Some t \<longrightarrow> getCachedText rt cfg f c = (Inr t, c)) \<and>
   (map_get (basename f) (loads rt cfg pre c) \<noteq> None \<longrightarrow>
      loads rt cfg (pre @ f # post) c = loads rt cfg (pre @ post) c) \<and>
   (maxCacheSize cfg = 2 \<longrightarrow>
      basename fa \<noteq> basename fb \<longrightarrow> basename fa \<noteq> basename fc \<longrightarrow>
      basename fb \<noteq> basename fc \<longrightarrow>
      gettext rt fa = Inr ta \<longrightarrow> gettext rt fb = Inr tb \<longrightarrow> gettext rt fc = Inr tc \<longrightarrow>
      loads rt cfg [fa, fb, fa, fc] [] = [(basename fb, tb), (basename fc, tc)])"
proof (intro conjI impI)
  assume "map_get (basename f) c = Some t"
  then show "getCachedText rt cfg f c = (Inr t, c)"
    by (rule getCachedText_hit)
next
  assume "map_get (basename f) (loads rt cfg pre c) \<noteq> None"
  then obtain t' where "map_get (basename f) (loads rt cfg pre c) = Some t'"
    by auto
  then have "snd (getCachedText rt cfg f (loads rt cfg pre c)) = loads rt cfg pre c"
    by (simp add: getCachedText_hit)
  then show "loads rt cfg (pre @ f # post) c = loads rt cfg (pre @ post) c"
    by (simp add: loads_append)
next
  assume h: "maxCacheSize cfg = 2" "basename fa \<noteq> basename fb" "basename fa \<noteq> basename fc"
    "basename fb \<noteq> basename fc" "gettext rt fa = Inr ta" "gettext rt fb = Inr tb"
    "gettext rt fc = Inr tc"
  note two = loads_three [OF h]
  have hit: "getCachedText rt cfg fa [(basename fa, ta), (basename fb, tb)]
               = (Inr ta, [(basename fa, ta), (basename fb, tb)])"
    by (rule getCachedText_hit) (simp add: map_get_def)
  have "loads rt cfg ([fa, fb] @ [fa] @ [fc]) [] = [(basename fb, tb), (basename fc, tc)]"
    unfolding loads_append two(1) using hit two(2) by simp
  then show "loads rt cfg [fa, fb, fa, fc] [] = [(basename fb, tb), (basename fc, tc)]"
    by simp
qed

theorem eviction_ignores_access_witness:
  "map_get (basename ''/corpus/a.txt'') [(''a.txt'', [0x61]), (''b.txt'', [0x62])] = Some [0x61] \<and>
   getCachedText example_runtime (example_config 2) ''/corpus/a.txt''
       [(''a.txt'', [0x61]), (''b.txt'', [0x62])]
     = (Inr [0x61], [(''a.txt'', [0x61]), (''b.txt'', [0x62])]) \<and>
   loads example_runtime (example_config 2)
       [''/corpus/a.txt'', ''/corpus/b.txt'', ''/corpus/a.txt'', ''/corpus/c.txt''] []
     = [(''b.txt'', [0x62]), (''c.txt'', [0x63])]"
  using eviction_ignores_access [of "''/corpus/a.txt''" "[(''a.txt'', [0x61]), (''b.txt'', [0x62])]"
      "[0x61]" example_runtime "example_config 2" "[]" "[]"
      "''/corpus/a.txt''" "''/corpus/b.txt''" "''/corpus/c.txt''" "[0x61]" "[0x62]" "[0x63]"]
  by (simp add: example_gettext example_basename example_config_def map_get_def)

section \<open>The scanner and the constructor\<close>

lemma walkSync_defined:
  "fl \<noteq> None \<Longrightarrow> walkSync cfg dir node fl \<noteq> None"
  "fl \<noteq> None \<Longrightarrow> forEach_file cfg dir es fl \<noteq> None"
  by (induction cfg dir node fl and cfg dir es fl rule: walkSync_forEach_file.induct)
    (auto simp: Let_def push_def split: fsnode.splits option.splits)

lemma walkSync_Directory: "walkSync cfg dir (Directory es) fl \<noteq> None"
proof -
  have "forEach_file cfg (with_trailing_slash dir) es
          (Some (case fl of None \<Rightarrow> [] | Some l \<Rightarrow> l)) \<noteq> None"
    by (rule walkSync_defined) simp
  then show ?thesis
    by (simp add: Let_def)
qed

lemma Corpora_Directory:
  "\<exists>cp. Corpora env (Directory es) opts = Inr cp \<and> corpus_config cp = make_config env opts
        \<and> textCache cp = []"
proof -
  obtain bs where "walkSync (make_config env opts)
      (getCorpusPath env (make_config env opts)) (Directory es) None = Some bs"
    using walkSync_Directory by blast
  then show ?thesis
    by (simp add: Corpora_def Let_def)
qed

text \<open>
  C3: the constructor on a root that does not exist, or that cannot be listed: the
  scanner returns the list it was given, which is undefined, and the constructor throws
  a TypeError where the claim has an empty document list.
\<close>

theorem missing_root_throws:
  "Corpora env Missing opts = Inl TypeError \<and>
   Corpora env Unreadable opts = Inl TypeError \<and>
   Corpora env RegularFile opts = Inl TypeError"
  by (simp add: Corpora_def Let_def)

section \<open>A capacity of 0\<close>

lemma make_config_maxCacheSize:
  "maxCacheSize (make_config env (opts\<lparr> opt_maxCacheSize := Some n \<rparr>)) = n"
  by (simp add: make_config_def)

lemma getCachedText_zero:
  assumes "maxCacheSize cfg \<le> 0" and "length c \<le> 1"
  shows "length (snd (getCachedText rt cfg f c)) \<le> 1"
proof (cases "map_get (basename f) c")
  case (Some t)
  then show ?thesis using assms(2) by (simp add: getCachedText_hit)
next
  case None
  show ?thesis
  proof (cases "gettext rt f")
    case (Inl e)
    then show ?thesis using None assms(2) by (simp add: getCachedText_fail)
  next
    case (Inr t)
    have "delete_first_key c = []"
      using assms(2)
      by (cases c) (auto simp: delete_first_key_def map_keys_def map_delete_def)
    then show ?thesis
      using None Inr assms(1) by (simp add: getCachedText_miss map_size_def)
  qed
qed

lemma loads_zero:
  "maxCacheSize cfg \<le> 0 \<Longrightarrow> length c \<le> 1 \<Longrightarrow> length (loads rt cfg fs c) \<le> 1"
proof (induction fs arbitrary: c)
  case Nil
  then show ?case by simp
next
  case (Cons f fs)
  from Cons.prems have "length (snd (getCachedText rt cfg f c)) \<le> 1"
    by (rule getCachedText_zero)
  with Cons.prems(1) have "length (loads rt cfg fs (snd (getCachedText rt cfg f c))) \<le> 1"
    by (rule Cons.IH)
  then show ?case by simp
qed

text \<open>
  C6 (as amended): a capacity of 0 is accepted at construction, the configuration keeps
  the 0, and the cache then retains one entry, the last one loaded: after a load that
  missed and read its file the cache holds that text alone, and over every sequence of
  text() loads the cache size stays at most 1.
\<close>

theorem zero_capacity_keeps_last:
  "(\<exists>cp. Corpora env (Directory es) (opts\<lparr> opt_maxCacheSize := Some 0 \<rparr>) = Inr cp \<and>
         maxCacheSize (corpus_config cp) = 0 \<and> textCache cp = []) \<and>
   (maxCacheSize cfg = 0 \<longrightarrow> map_size (loads rt cfg fs []) \<le> 1) \<and>
   (maxCacheSize cfg = 0 \<longrightarrow> map_size c \<le> 1 \<longrightarrow>
      map_get (basename f) c = None \<longrightarrow> gettext rt f = Inr t \<longrightarrow>
      getCachedText rt cfg f c = (Inr t, [(basename f, t)]))"
proof (intro conjI impI)
  show "\<exists>cp. Corpora env (Directory es) (opts\<lparr> opt_maxCacheSize := Some 0 \<rparr>) = Inr cp \<and>
          maxCacheSize (corpus_config cp) = 0 \<and> textCache cp = []"
    using Corpora_Directory [of env es "opts\<lparr> opt_maxCacheSize := Some 0 \<rparr>"]
    by (auto simp: make_config_maxCacheSize)
next
  assume "maxCacheSize cfg = 0"
  then have "length (loads rt cfg fs []) \<le> 1"
    by (intro loads_zero) simp_all
  then show "map_size (loads rt cfg fs []) \<le> 1"
    by (simp add: map_size_def)
next
  assume h: "maxCacheSize cfg = 0" "map_size c \<le> 1" "map_get (basename f) c = None"
    "gettext rt f = Inr t"
  have "delete_first_key c = []"
    using h(2)
    by (cases c) (auto simp: delete_first_key_def map_keys_def map_delete_def map_size_def)
  then show "getCachedText rt cfg f c = (Inr t, [(basename f, t)])"
    using h by (simp add: getCachedText_miss map_size_def)
qed

theorem zero_capacity_keeps_last_witness:
  "maxCacheSize (example_config 0) = 0 \<and>
   map_size (loads example_runtime (example_config 0) [''/corpus/a.txt'', ''/corpus/b.txt''] []) \<le> 1 \<and>
   getCachedText example_runtime (example_config 0) ''/corpus/b.txt'' [(''a.txt'', [0x61])]
     = (Inr [0x62], [(''b.txt'', [0x62])])"
  using zero_capacity_keeps_last [where cfg = "example_config 0" and rt = example_runtime
      and fs = "[''/corpus/a.txt'', ''/corpus/b.txt'']" and c = "[(''a.txt'', [0x61])]"
      and f = "''/corpus/b.txt''" and t = "[0x62]"]
  by (simp add: example_gettext example_basename example_config_def map_get_def map_size_def)

text \<open>With the capacity 0, two loads leave the second text in the cache.\<close>

theorem zero_capacity_counterexample:
  "loads example_runtime
     (make_config example_env \<lparr> opt_maxCacheSize = Some 0, opt_isLambda = None \<rparr>)
     [''/corpus/a.txt'', ''/corpus/b.txt''] [] = [(''b.txt'', [0x62])] \<and>
   map_size (loads example_runtime
     (make_config example_env \<lparr> opt_maxCacheSize = Some 0, opt_isLambda = None \<rparr>)
     [''/corpus/a.txt'', ''/corpus/b.txt''] []) \<noteq> 0"
  by (simp add: make_config_def example_env_def truthy_string_def getCachedText_miss
      example_gettext example_basename map_get_def map_size_def delete_first_key_def
      map_keys_def map_delete_def)

section \<open>The key of a cache entry\<close>


lemma example_gettext_d:
  "gettext example_runtime ''/corpus/x/d.txt'' = Inr [0x64]"
  "gettext example_runtime ''/corpus/y/d.txt'' = Inr [0x65]"
  by (simp_all add: gettext_def example_runtime_def example_files_def try_catch_def
      decode_latin1_def strip_bom_def)

text \<open>
  C7: the key of a cache entry is the base name of the path, not the name of the
  document. After text() on \<^verbatim>\<open>/corpus/x/d.txt\<close>, whose name is \<^verbatim>\<open>x/d\<close>, the one key
  of the cache is \<^verbatim>\<open>d.txt\<close>; text() on \<^verbatim>\<open>/corpus/y/d.txt\<close>, another document with a
  text of its own, then returns the text of the first.
\<close>

theorem cache_key_collision:
  "name (make_descriptor ''/corpus'' ''/corpus/x/d.txt'') = ''x/d'' \<and>
   name (make_descriptor ''/corpus'' ''/corpus/y/d.txt'') = ''y/d'' \<and>
   gettext example_runtime ''/corpus/x/d.txt'' = Inr [0x64] \<and>
   gettext example_runtime ''/corpus/y/d.txt'' = Inr [0x65] \<and>
   text_of example_runtime (example_config 2) (make_descriptor ''/corpus'' ''/corpus/x/d.txt'') []
     = (Inr [0x64], [(''d.txt'', [0x64])]) \<and>
   name (make_descriptor ''/corpus'' ''/corpus/x/d.txt'') \<notin> set (map_keys [(''d.txt'', [0x64])]) \<and>
   text_of example_runtime (example_config 2) (make_descriptor ''/corpus'' ''/corpus/y/d.txt'')
       [(''d.txt'', [0x64])]
     = (Inr [0x64], [(''d.txt'', [0x64])])"
  by code_simp

section \<open>The byte-order mark\<close>










section \<open>Pre-segmented and raw documents\<close>

lemma has_substring_iff: "has_substring pat s \<longleftrightarrow> sublist pat s"
  by (induction s) (simp_all add: sublist_Cons_right)

lemma kind_sentences:
  "kind (make_descriptor root f) = PresegmentedSentences
     \<longleftrightarrow> (\<exists>pre post. f = pre @ ''sentences'' @ post)"
  by (simp add: make_descriptor_def has_substring_iff sublist_def)

lemma filename_make_descriptor: "filename (make_descriptor root f) = f"
  by (simp add: make_descriptor_def)

lemma text_of_sentences:
  assumes "\<exists>pre post. f = pre @ ''sentences'' @ post"
  shows "text_of rt cfg (make_descriptor root f) c
           = (Inr (case require_module rt f of Inl e \<Rightarrow> [] | Inr ss \<Rightarrow> join_lines ss), c)"
    and "sentences_of rt cfg (make_descriptor root f) c
           = (Inr (case require_module rt f of Inl e \<Rightarrow> [] | Inr ss \<Rightarrow> ss), c)"
proof -
  have k: "kind (make_descriptor root f) = PresegmentedSentences"
    using assms by (simp only: kind_sentences)
  show "text_of rt cfg (make_descriptor root f) c
           = (Inr (case require_module rt f of Inl e \<Rightarrow> [] | Inr ss \<Rightarrow> join_lines ss), c)"
    using k by (simp add: text_of_def filename_make_descriptor try_catch_def split: sum.splits)
  show "sentences_of rt cfg (make_descriptor root f) c
           = (Inr (case require_module rt f of Inl e \<Rightarrow> [] | Inr ss \<Rightarrow> ss), c)"
    using k by (simp add: sentences_of_def filename_make_descriptor try_catch_def split: sum.splits)
qed

lemma text_of_raw:
  assumes "\<not> (\<exists>pre post. f = pre @ ''sentences'' @ post)"
  shows "text_of rt cfg (make_descriptor root f) c = getCachedText rt cfg f c"
    and "sentences_of rt cfg (make_descriptor root f) c
           = (case getCachedText rt cfg f c of
                (Inl e, c') \<Rightarrow> (Inr [], c')
              | (Inr t, c') \<Rightarrow> (case sentencify rt t of Inl e \<Rightarrow> (Inr [], c') | Inr ss \<Rightarrow> (Inr ss, c')))"
proof -
  have k: "kind (make_descriptor root f) = RawText"
    using assms kind_sentences [of root f] by (cases "kind (make_descriptor root f)") simp_all
  show "text_of rt cfg (make_descriptor root f) c = getCachedText rt cfg f c"
    using k by (simp add: text_of_def filename_make_descriptor)
  show "sentences_of rt cfg (make_descriptor root f) c
           = (case getCachedText rt cfg f c of
                (Inl e, c') \<Rightarrow> (Inr [], c')
              | (Inr t, c') \<Rightarrow> (case sentencify rt t of Inl e \<Rightarrow> (Inr [], c') | Inr ss \<Rightarrow> (Inr ss, c')))"
    using k
    by (auto simp: sentences_of_def filename_make_descriptor Let_def try_catch_def
        split: prod.splits sum.splits)
qed

lemma Corpora_books:
  assumes "Corpora env node opts = Inr cp"
  shows "walkSync (corpus_config cp) (corpus_root cp) node None = Some (map filename (texts cp))"
    and "texts cp = map (make_descriptor (corpus_root cp)) (map filename (texts cp))"
proof -
  obtain bs where bs: "walkSync (make_config env opts)
      (getCorpusPath env (make_config env opts)) node None = Some bs"
    and cp: "cp = \<lparr> texts = map (make_descriptor (getCorpusPath env (make_config env opts))) bs,
                    corpus_config = make_config env opts,
                    corpus_root = getCorpusPath env (make_config env opts),
                    textCache = [] \<rparr>"
    using assms by (auto simp: Corpora_def Let_def split: option.splits)
  have m: "map filename (texts cp) = bs"
    by (simp add: cp o_def filename_make_descriptor)
  show "walkSync (corpus_config cp) (corpus_root cp) node None = Some (map filename (texts cp))"
    unfolding m using bs by (simp add: cp)
  show "texts cp = map (make_descriptor (corpus_root cp)) (map filename (texts cp))"
    unfolding m by (simp add: cp)
qed

text \<open>
  C9: what the two accessors of a document do is decided by its full path alone. When
  the path has \<^verbatim>\<open>sentences\<close> somewhere in it, whatever its extension, so when a
  directory on the path has, text() and sentences() load it with \<^verbatim>\<open>require\<close> as a
  module of sentences and leave the text loader and the cache alone; when it has not,
  text() is the cached text loader on the path and sentences() splits what that loader
  returns. The documents of a constructed corpus are those of the files that the
  scanner lists, each with these accessors.
\<close>

theorem kind_by_path:
  "((\<exists>pre post. f = pre @ ''sentences'' @ post) \<longrightarrow>
      text_of rt cfg (make_descriptor root f) c
        = (Inr (case require_module rt f of Inl e \<Rightarrow> [] | Inr ss \<Rightarrow> join_lines ss), c) \<and>
      sentences_of rt cfg (make_descriptor root f) c
        = (Inr (case require_module rt f of Inl e \<Rightarrow> [] | Inr ss \<Rightarrow> ss), c)) \<and>
   (\<not> (\<exists>pre post. f = pre @ ''sentences'' @ post) \<longrightarrow>
      text_of rt cfg (make_descriptor root f) c = getCachedText rt cfg f c \<and>
      sentences_of rt cfg (make_descriptor root f) c
        = (case getCachedText rt cfg f c of
             (Inl e, c') \<Rightarrow> (Inr [], c')
           | (Inr t, c') \<Rightarrow>
               (case sentencify rt t of Inl e \<Rightarrow> (Inr [], c') | Inr ss \<Rightarrow> (Inr ss, c')))) \<and>
   ((\<exists>pre post. dir = pre @ ''sentences'' @ post) \<longrightarrow>
      text_of rt cfg (make_descriptor root (dir @ ''/'' @ leaf)) c
        = (Inr (case require_module rt (dir @ ''/'' @ leaf) of
                  Inl e \<Rightarrow> [] | Inr ss \<Rightarrow> join_lines ss), c) \<and>
      sentences_of rt cfg (make_descriptor root (dir @ ''/'' @ leaf)) c
        = (Inr (case require_module rt (dir @ ''/'' @ leaf) of Inl e \<Rightarrow> [] | Inr ss \<Rightarrow> ss), c)) \<and>
   (Corpora env node opts = Inr cp \<longrightarrow>
      walkSync (corpus_config cp) (corpus_root cp) node None = Some (map filename (texts cp)) \<and>
      texts cp = map (make_descriptor (corpus_root cp)) (map filename (texts cp)))"
proof (intro conjI impI)
  assume s: "\<exists>pre post. f = pre @ ''sentences'' @ post"
  show "text_of rt cfg (make_descriptor root f) c
        = (Inr (case require_module rt f of Inl e \<Rightarrow> [] | Inr ss \<Rightarrow> join_lines ss), c)"
    by (rule text_of_sentences(1) [OF s])
  show "sentences_of rt cfg (make_descriptor root f) c
        = (Inr (case require_module rt f of Inl e \<Rightarrow> [] | Inr ss \<Rightarrow> ss), c)"
    by (rule text_of_sentences(2) [OF s])
next
  assume n: "\<not> (\<exists>pre post. f = pre @ ''sentences'' @ post)"
  show "text_of rt cfg (make_descriptor root f) c = getCachedText rt cfg f c"
    by (rule text_of_raw(1) [OF n])
  show "sentences_of rt cfg (make_descriptor root f) c
        = (case getCachedText rt cfg f c of
             (Inl e, c') \<Rightarrow> (Inr [], c')
           | (Inr t, c') \<Rightarrow>
               (case sentencify rt t of Inl e \<Rightarrow> (Inr [], c') | Inr ss \<Rightarrow> (Inr ss, c')))"
    by (rule text_of_raw(2) [OF n])
next
  assume "\<exists>pre post. dir = pre @ ''sentences'' @ post"
  then obtain pre post where "dir = pre @ ''sentences'' @ post"
    by blast
  then have "dir @ ''/'' @ leaf = pre @ ''sentences'' @ (post @ ''/'' @ leaf)"
    by simp
  then have s: "\<exists>pre post. dir @ ''/'' @ leaf = pre @ ''sentences'' @ post"
    by blast
  show "text_of rt cfg (make_descriptor root (dir @ ''/'' @ leaf)) c
        = (Inr (case require_module rt (dir @ ''/'' @ leaf) of
                  Inl e \<Rightarrow> [] | Inr ss \<Rightarrow> join_lines ss), c)"
    by (rule text_of_sentences(1) [OF s])
  show "sentences_of rt cfg (make_descriptor root (dir @ ''/'' @ leaf)) c
        = (Inr (case require_module rt (dir @ ''/'' @ leaf) of Inl e \<Rightarrow> [] | Inr ss \<Rightarrow> ss), c)"
    by (rule text_of_sentences(2) [OF s])
next
  assume c: "Corpora env node opts = Inr cp"
  show "walkSync (corpus_config cp) (corpus_root cp) node None = Some (map filename (texts cp))"
    by (rule Corpora_books(1) [OF c])
  show "texts cp = map (make_descriptor (corpus_root cp)) (map filename (texts cp))"
    by (rule Corpora_books(2) [OF c])
qed

lemma example_Corpora:
  "Corpora example_env example_tree example_options =
     Inr \<lparr> texts =
             [\<lparr> name = ''William.Gibson.Neuromancer'',
                filename = ''/corpus/William.Gibson.Neuromancer.txt'', kind = RawText \<rparr>,
              \<lparr> name = ''jane.austen.pride'',
                filename = ''/corpus/jane.austen.pride.txt'', kind = RawText \<rparr>,
              \<lparr> name = ''sentences/harvard'',
                filename = ''/corpus/sentences/harvard.js'', kind = PresegmentedSentences \<rparr>],
           corpus_config = \<lparr> maxCacheSize = 2, isLambda = False \<rparr>,
           corpus_root = ''/corpus'',
           textCache = [] \<rparr>"
  by code_simp

lemma example_paths:
  "\<exists>pre post. ''/corpus/sentences/harvard.js'' = pre @ ''sentences'' @ post"
  "\<exists>pre post. ''/corpus/sentences'' = pre @ ''sentences'' @ post"
  "\<not> (\<exists>pre post. ''/corpus/a.txt'' = pre @ ''sentences'' @ post)"
proof -
  have "''/corpus/sentences/harvard.js'' = ''/corpus/'' @ ''sentences'' @ ''/harvard.js''"
    by simp
  then show "\<exists>pre post. ''/corpus/sentences/harvard.js'' = pre @ ''sentences'' @ post"
    by blast
  have "''/corpus/sentences'' = ''/corpus/'' @ ''sentences'' @ []"
    by simp
  then show "\<exists>pre post. ''/corpus/sentences'' = pre @ ''sentences'' @ post"
    by blast
  have "\<not> has_substring ''sentences'' ''/corpus/a.txt''"
    by code_simp
  then have "\<not> sublist ''sentences'' ''/corpus/a.txt''"
    using has_substring_iff by blast
  then show "\<not> (\<exists>pre post. ''/corpus/a.txt'' = pre @ ''sentences'' @ post)"
    unfolding sublist_def .
qed

lemma example_loads:
  "getCachedText example_runtime (example_config 2) ''/corpus/a.txt'' []
     = (Inr [0x61], [(''a.txt'', [0x61])])"
  "require_module example_runtime ''/corpus/sentences/harvard.js'' = Inr [[0x41, 0x2E], [0x42, 0x2E]]"
  "sentencify example_runtime [0x61] = Inr [[0x61]]"
  by code_simp+

theorem kind_by_path_witness:
  "Corpora example_env example_tree example_options =
     Inr \<lparr> texts =
             [\<lparr> name = ''William.Gibson.Neuromancer'',
                filename = ''/corpus/William.Gibson.Neuromancer.txt'', kind = RawText \<rparr>,
              \<lparr> name = ''jane.austen.pride'',
                filename = ''/corpus/jane.austen.pride.txt'', kind = RawText \<rparr>,
              \<lparr> name = ''sentences/harvard'',
                filename = ''/corpus/sentences/harvard.js'', kind = PresegmentedSentences \<rparr>],
           corpus_config = \<lparr> maxCacheSize = 2, isLambda = False \<rparr>,
           corpus_root = ''/corpus'',
           textCache = [] \<rparr> \<and>
   walkSync \<lparr> maxCacheSize = 2, isLambda = False \<rparr> ''/corpus'' example_tree None
     = Some [''/corpus/William.Gibson.Neuromancer.txt'', ''/corpus/jane.austen.pride.txt'',
             ''/corpus/sentences/harvard.js''] \<and>
   ''/corpus/sentences/harvard.js'' = ''/corpus/'' @ ''sentences'' @ ''/harvard.js'' \<and>
   text_of example_runtime (example_config 2)
       (make_descriptor ''/corpus'' ''/corpus/sentences/harvard.js'') []
     = (Inr [0x41, 0x2E, 0x0A, 0x42, 0x2E], []) \<and>
   sentences_of example_runtime (example_config 2)
       (make_descriptor ''/corpus'' ''/corpus/sentences/harvard.js'') []
     = (Inr [[0x41, 0x2E], [0x42, 0x2E]], []) \<and>
   text_of example_runtime (example_config 2) (make_descriptor ''/corpus'' ''/corpus/a.txt'') []
     = (Inr [0x61], [(''a.txt'', [0x61])]) \<and>
   sentences_of example_runtime (example_config 2) (make_descriptor ''/corpus'' ''/corpus/a.txt'') []
     = (Inr [[0x61]], [(''a.txt'', [0x61])])"
proof -
  note s = kind_by_path [where f = "''/corpus/sentences/harvard.js''" and root = "''/corpus''"
      and rt = example_runtime and cfg = "example_config 2" and c = "[]"
      and dir = "''/corpus/sentences''" and leaf = "''harvard.js''"
      and env = example_env and node = example_tree and opts = example_options]
  note r = kind_by_path [where f = "''/corpus/a.txt''" and root = "''/corpus''"
      and rt = example_runtime and cfg = "example_config 2" and c = "[]"
      and dir = "''/corpus/sentences''" and leaf = "''harvard.js''"
      and env = example_env and node = example_tree and opts = example_options]
  have 1: "text_of example_runtime (example_config 2)
       (make_descriptor ''/corpus'' ''/corpus/sentences/harvard.js'') []
     = (Inr [0x41, 0x2E, 0x0A, 0x42, 0x2E], [])"
    and 2: "sentences_of example_runtime (example_config 2)
       (make_descriptor ''/corpus'' ''/corpus/sentences/harvard.js'') []
     = (Inr [[0x41, 0x2E], [0x42, 0x2E]], [])"
    using s [THEN conjunct1, THEN mp, OF example_paths(1)] by (simp_all add: example_loads)
  have 3: "text_of example_runtime (example_config 2) (make_descriptor ''/corpus'' ''/corpus/a.txt'') []
     = (Inr [0x61], [(''a.txt'', [0x61])])"
    and 4: "sentences_of example_runtime (example_config 2)
        (make_descriptor ''/corpus'' ''/corpus/a.txt'') []
     = (Inr [[0x61]], [(''a.txt'', [0x61])])"
    using r [THEN conjunct2, THEN conjunct1, THEN mp, OF example_paths(3)]
    by (simp_all add: example_loads)
  have 5: "walkSync \<lparr> maxCacheSize = 2, isLambda = False \<rparr> ''/corpus'' example_tree None
     = Some [''/corpus/William.Gibson.Neuromancer.txt'', ''/corpus/jane.austen.pride.txt'',
             ''/corpus/sentences/harvard.js'']"
    using s [THEN conjunct2, THEN conjunct2, THEN conjunct2, THEN mp, OF example_Corpora]
    by simp
  have 6: "''/corpus/sentences/harvard.js'' = ''/corpus/'' @ ''sentences'' @ ''/harvard.js''"
    by simp
  show ?thesis
    using example_Corpora 1 2 3 4 5 6 by (intro conjI)
qed

section \<open>Failures at the accessors\<close>








section \<open>Filtering\<close>

lemma try_catch_Inr: "try_catch (Inr v) handler = Inr v"
  by (simp add: try_catch_def)

lemma try_catch_Inl: "try_catch (Inl e) handler = handler e"
  by (simp add: try_catch_def)

lemma array_filter_total:
  "array_filter (\<lambda>x. Inr (P x)) xs = Inr (filter P xs)"
  by (induction xs) simp_all

lemma caught_match:
  "try_catch (match_found eng s r) (\<lambda>error. Inr False) = Inr (match_found eng s r = Inr True)"
  by (cases "match_found eng s r") (auto simp: try_catch_def)

lemma filter_texts_compiled:
  "RegExp eng p ''i'' = Inr r \<Longrightarrow>
   filter_texts eng ts p = Inr (filter (\<lambda>m. match_found eng (name m) r = Inr True) ts)"
  by (simp add: filter_texts_def caught_match array_filter_total try_catch_Inr)

lemma filter_texts_invalid:
  "RegExp eng p ''i'' = Inl e \<Longrightarrow> filter_texts eng ts p = Inr []"
  by (simp add: filter_texts_def try_catch_Inl)

text \<open>The search succeeds at the first start index where the matcher does.\<close>

lemma exec_loop_True:
  "exec_loop m js = Inr True \<longleftrightarrow>
     (\<exists>k < length js. m (js ! k) = Inr True \<and> (\<forall>j < k. m (js ! j) = Inr False))"
proof (induction js)
  case Nil
  then show ?case by simp
next
  case (Cons i js)
  show ?case
  proof (cases "m i")
    case (Inl e)
    then show ?thesis
      by (auto simp: nth_Cons split: nat.splits)
  next
    case (Inr found)
    show ?thesis
    proof (cases found)
      case True
      then have "m ((i # js) ! 0) = Inr True \<and> (\<forall>j < 0. m ((i # js) ! j) = Inr False)"
        using Inr by simp
      then show ?thesis
        using Inr True by auto
    next
      case False
      have "(\<exists>k < length (i # js). m ((i # js) ! k) = Inr True \<and>
               (\<forall>j < k. m ((i # js) ! j) = Inr False))
            \<longleftrightarrow> (\<exists>k < length js. m (js ! k) = Inr True \<and> (\<forall>j < k. m (js ! j) = Inr False))"
        (is "?L \<longleftrightarrow> ?R")
      proof
        assume ?L
        then obtain k where k: "k < length (i # js)" "m ((i # js) ! k) = Inr True"
          "\<forall>j < k. m ((i # js) ! j) = Inr False"
          by blast
        then obtain k' where k': "k = Suc k'"
          using Inr False by (cases k) auto
        have "\<forall>j < k'. m (js ! j) = Inr False"
        proof (intro allI impI)
          fix j assume "j < k'"
          then have "Suc j < k" using k' by simp
          then have "m ((i # js) ! Suc j) = Inr False" using k(3) by blast
          then show "m (js ! j) = Inr False" by simp
        qed
        then show ?R
          using k k' by auto
      next
        assume ?R
        then obtain k where k: "k < length js" "m (js ! k) = Inr True"
          "\<forall>j < k. m (js ! j) = Inr False"
          by blast
        have "\<forall>j < Suc k. m ((i # js) ! j) = Inr False"
        proof (intro allI impI)
          fix j assume "j < Suc k"
          then show "m ((i # js) ! j) = Inr False"
            using k(3) Inr False by (cases j) auto
        qed
        then show ?L
          using k by (intro exI [of _ "Suc k"]) auto
      qed
      then show ?thesis
        using Inr False Cons.IH by simp
    qed
  qed
qed

lemma match_found_True:
  "match_found eng s r = Inr True \<longleftrightarrow>
     (\<exists>i \<le> length s. matcher eng r s i = Inr True \<and> (\<forall>j < i. matcher eng r s j = Inr False))"
proof -
  have "match_found eng s r = Inr True \<longleftrightarrow>
     (\<exists>k < Suc (length s). matcher eng r s ([0..<Suc (length s)] ! k) = Inr True \<and>
        (\<forall>j < k. matcher eng r s ([0..<Suc (length s)] ! j) = Inr False))"
    unfolding match_found_def exec_loop_True by simp
  also have "\<dots> \<longleftrightarrow>
     (\<exists>k < Suc (length s). matcher eng r s k = Inr True \<and>
        (\<forall>j < k. matcher eng r s j = Inr False))"
  proof (intro ex_cong1 conj_cong refl)
    fix k
    assume "k < Suc (length s)"
    then show "(matcher eng r s ([0..<Suc (length s)] ! k) = Inr True) = (matcher eng r s k = Inr True)"
      by (metis add_0 nth_upt)
    show "(\<forall>j<k. matcher eng r s ([0..<Suc (length s)] ! j) = Inr False) =
          (\<forall>j<k. matcher eng r s j = Inr False)" if "k < Suc (length s)"
      using that by (metis add_0 nth_upt order.strict_trans)
  qed
  finally show ?thesis
    by (simp add: less_Suc_eq_le)
qed

subsection \<open>Simple patterns\<close>

lemma exec_loop_total:
  "(\<And>i. m i = Inr (P i)) \<Longrightarrow> exec_loop m js = Inr (list_ex P js)"
  by (induction js) simp_all

lemma simple_RegExp:
  "parse_pattern p = Some (Inr alts) \<Longrightarrow>
   RegExp (with_simple_patterns rest) p ''i'' = Inr (Inl (True, alts))"
  "parse_pattern p = Some (Inl e) \<Longrightarrow> RegExp (with_simple_patterns rest) p ''i'' = Inl e"
  by (simp_all add: with_simple_patterns_def)

lemma simple_match_found:
  "match_found (with_simple_patterns rest) s (Inl (ic, alts))
     = Inr (list_ex (\<lambda>i. list_ex (\<lambda>a. match_here ic a (drop i s)) alts) [0..<Suc (length s)])"
proof -
  have "exec_loop (matcher (with_simple_patterns rest) (Inl (ic, alts)) s) [0..<Suc (length s)]
          = Inr (list_ex (\<lambda>i. i \<le> length s \<and> list_ex (\<lambda>a. match_here ic a (drop i s)) alts)
                   [0..<Suc (length s)])"
    by (rule exec_loop_total) (simp add: with_simple_patterns_def)
  also have "list_ex (\<lambda>i. i \<le> length s \<and> list_ex (\<lambda>a. match_here ic a (drop i s)) alts)
                 [0..<Suc (length s)]
               = list_ex (\<lambda>i. list_ex (\<lambda>a. match_here ic a (drop i s)) alts) [0..<Suc (length s)]"
    by (auto simp: list_ex_iff)
  finally show ?thesis
    by (simp add: match_found_def)
qed

lemma match_here_iff:
  "match_here ic a s \<longleftrightarrow> (\<exists>mid post. s = mid @ post \<and> list_all2 (atom_matches ic) a mid)"
proof (induction ic a s rule: match_here.induct)
  case (1 ic s)
  then show ?case by simp
next
  case (2 ic a r)
  then show ?case by simp
next
  case (3 ic a r c cs)
  show ?case
  proof
    assume "match_here ic (a # r) (c # cs)"
    then have "atom_matches ic a c" and "match_here ic r cs"
      by simp_all
    then obtain mid post where "cs = mid @ post" "list_all2 (atom_matches ic) r mid"
      using 3 by blast
    then have "c # cs = (c # mid) @ post \<and> list_all2 (atom_matches ic) (a # r) (c # mid)"
      using \<open>atom_matches ic a c\<close> by simp
    then show "\<exists>mid post. c # cs = mid @ post \<and> list_all2 (atom_matches ic) (a # r) mid"
      by blast
  next
    assume "\<exists>mid post. c # cs = mid @ post \<and> list_all2 (atom_matches ic) (a # r) mid"
    then obtain mid post where m: "c # cs = mid @ post" "list_all2 (atom_matches ic) (a # r) mid"
      by blast
    then obtain d mid' where d: "mid = d # mid'" "atom_matches ic a d"
      "list_all2 (atom_matches ic) r mid'"
      by (auto simp: list_all2_Cons1)
    then have "d = c" and "cs = mid' @ post"
      using m(1) by simp_all
    then show "match_here ic (a # r) (c # cs)"
      using d 3 by auto
  qed
qed

lemma simple_search_iff:
  "list_ex (\<lambda>i. list_ex (\<lambda>a. match_here ic a (drop i s)) alts) [0..<Suc (length s)] \<longleftrightarrow>
     (\<exists>pre mid post. s = pre @ mid @ post \<and> (\<exists>a \<in> set alts. list_all2 (atom_matches ic) a mid))"
proof
  assume "list_ex (\<lambda>i. list_ex (\<lambda>a. match_here ic a (drop i s)) alts) [0..<Suc (length s)]"
  then obtain i a where a: "a \<in> set alts" "match_here ic a (drop i s)"
    unfolding list_ex_iff by blast
  then obtain mid post where "drop i s = mid @ post" "list_all2 (atom_matches ic) a mid"
    unfolding match_here_iff by blast
  then have "s = take i s @ mid @ post \<and> list_all2 (atom_matches ic) a mid"
    by (metis append_take_drop_id)
  with a(1) show "\<exists>pre mid post. s = pre @ mid @ post \<and>
      (\<exists>a \<in> set alts. list_all2 (atom_matches ic) a mid)"
    by blast
next
  assume "\<exists>pre mid post. s = pre @ mid @ post \<and>
      (\<exists>a \<in> set alts. list_all2 (atom_matches ic) a mid)"
  then obtain pre mid post a where s: "s = pre @ mid @ post" "a \<in> set alts"
    "list_all2 (atom_matches ic) a mid"
    by blast
  then have "match_here ic a (drop (length pre) s)"
    unfolding match_here_iff by auto
  moreover have "length pre \<in> set [0..<Suc (length s)]"
    using s(1) by simp
  ultimately show "list_ex (\<lambda>i. list_ex (\<lambda>a. match_here ic a (drop i s)) alts)
      [0..<Suc (length s)]"
    unfolding list_ex_iff using s(2) by blast
qed

lemma filter_texts_simple:
  assumes "parse_pattern p = Some (Inr alts)"
  shows "filter_texts (with_simple_patterns rest) ts p
           = Inr (filter (\<lambda>m. \<exists>pre mid post. name m = pre @ mid @ post \<and>
                                  (\<exists>a \<in> set alts. list_all2 (atom_matches True) a mid)) ts)"
proof -
  have "filter_texts (with_simple_patterns rest) ts p
          = Inr (filter (\<lambda>m. match_found (with_simple_patterns rest) (name m) (Inl (True, alts))
                                = Inr True) ts)"
    by (rule filter_texts_compiled) (rule simple_RegExp(1) [OF assms])
  then show ?thesis
    by (simp add: simple_match_found simple_search_iff del: upt_Suc)
qed

lemma parse_literal:
  "\<forall>c \<in> set p. c \<notin> set syntax_characters \<Longrightarrow> parse_pattern p = Some (Inr [map Literal p])"
  by (induction p rule: parse_pattern.induct) (auto simp: syntax_characters_def)

lemma literal_all2:
  "list_all2 (atom_matches True) (map Literal p) mid \<longleftrightarrow> map canonicalize mid = map canonicalize p"
proof (induction p arbitrary: mid)
  case Nil
  then show ?case by simp
next
  case (Cons c p)
  then show ?case by (cases mid) auto
qed

lemma literal_substring:
  "(\<exists>pre mid post. s = pre @ mid @ post \<and> list_all2 (atom_matches True) (map Literal p) mid)
     \<longleftrightarrow> sublist (map canonicalize p) (map canonicalize s)"
proof
  assume "\<exists>pre mid post. s = pre @ mid @ post \<and> list_all2 (atom_matches True) (map Literal p) mid"
  then obtain pre mid post where "s = pre @ mid @ post" "map canonicalize mid = map canonicalize p"
    unfolding literal_all2 by blast
  then have "map canonicalize s
      = map canonicalize pre @ map canonicalize p @ map canonicalize post"
    by simp
  then show "sublist (map canonicalize p) (map canonicalize s)"
    unfolding sublist_def by blast
next
  assume "sublist (map canonicalize p) (map canonicalize s)"
  then obtain xs ys where "map canonicalize s = xs @ map canonicalize p @ ys"
    unfolding sublist_def by blast
  then have "\<exists>us vs. s = us @ vs \<and> xs = map canonicalize us \<and>
               map canonicalize p @ ys = map canonicalize vs"
    by (simp only: map_eq_append_conv)
  then obtain pre vs where 1: "s = pre @ vs" "map canonicalize p @ ys = map canonicalize vs"
    by blast
  from 1(2) have "\<exists>us ws. vs = us @ ws \<and> map canonicalize p = map canonicalize us \<and>
               ys = map canonicalize ws"
    by (simp only: append_eq_map_conv)
  then obtain mid post where 2: "vs = mid @ post" "map canonicalize p = map canonicalize mid"
    by blast
  have "s = pre @ mid @ post" and "map canonicalize mid = map canonicalize p"
    using 1(1) 2 by simp_all
  then show "\<exists>pre mid post. s = pre @ mid @ post \<and>
      list_all2 (atom_matches True) (map Literal p) mid"
    unfolding literal_all2 by blast
qed

lemma parse_unclosed: "parse_pattern ''[unclosed'' = Some (Inl SyntaxError)"
  by simp

text \<open>
  C4: for every engine, document list and pattern string, filter returns a sequence and
  throws nothing; when the pattern does not compile the sequence is empty, as it is for
  the pattern \<^verbatim>\<open>[unclosed\<close>, whose bracket is never closed.
\<close>

theorem filter_never_throws:
  "(\<exists>ds. filter_texts eng ts p = Inr ds) \<and>
   (\<forall>e. RegExp eng p ''i'' = Inl e \<longrightarrow> filter_texts eng ts p = Inr []) \<and>
   filter_texts (with_simple_patterns rest) ts ''[unclosed'' = Inr []"
proof (intro conjI allI impI)
  show "\<exists>ds. filter_texts eng ts p = Inr ds"
    by (cases "RegExp eng p ''i''") (simp_all add: filter_texts_invalid filter_texts_compiled)
next
  fix e
  assume "RegExp eng p ''i'' = Inl e"
  then show "filter_texts eng ts p = Inr []"
    by (rule filter_texts_invalid)
next
  have "RegExp (with_simple_patterns rest) ''[unclosed'' ''i'' = Inl SyntaxError"
    by (rule simple_RegExp(2) [OF parse_unclosed])
  then show "filter_texts (with_simple_patterns rest) ts ''[unclosed'' = Inr []"
    by (rule filter_texts_invalid)
qed

theorem filter_never_throws_witness:
  "RegExp (with_simple_patterns example_engine) ''[unclosed'' ''i'' = Inl SyntaxError \<and>
   filter_texts (with_simple_patterns example_engine)
     [make_descriptor ''/corpus'' ''/corpus/William.Gibson.Neuromancer.txt'',
      make_descriptor ''/corpus'' ''/corpus/jane.austen.pride.txt''] ''[unclosed'' = Inr []"
proof -
  have c: "RegExp (with_simple_patterns example_engine) ''[unclosed'' ''i'' = Inl SyntaxError"
    by (rule simple_RegExp(2) [OF parse_unclosed])
  note th = filter_never_throws [where eng = "with_simple_patterns example_engine"
      and p = "''[unclosed''"
      and ts = "[make_descriptor ''/corpus'' ''/corpus/William.Gibson.Neuromancer.txt'',
                 make_descriptor ''/corpus'' ''/corpus/jane.austen.pride.txt'']"]
  from th c show ?thesis
    by blast
qed

subsection \<open>What filter selects\<close>

lemma example_names:
  "name (make_descriptor ''/corpus'' ''/corpus/William.Gibson.Neuromancer.txt'')
     = ''William.Gibson.Neuromancer''"
  "name (make_descriptor ''/corpus'' ''/corpus/jane.austen.pride.txt'') = ''jane.austen.pride''"
  by code_simp+

lemma example_literal:
  "\<forall>c \<in> set ''gibson''. c \<notin> set syntax_characters"
  "\<forall>c \<in> set ''GIBSON''. c \<notin> set syntax_characters"
  by (simp_all add: syntax_characters_def)

lemma example_sublist:
  "sublist (map canonicalize ''gibson'') (map canonicalize ''William.Gibson.Neuromancer'')"
  "\<not> sublist (map canonicalize ''gibson'') (map canonicalize ''jane.austen.pride'')"
  "sublist (map canonicalize ''GIBSON'') (map canonicalize ''William.Gibson.Neuromancer'')"
  "\<not> sublist (map canonicalize ''GIBSON'') (map canonicalize ''jane.austen.pride'')"
  by code_simp+

lemma example_case_sensitive:
  "\<not> list_ex (\<lambda>i. list_ex (\<lambda>a. match_here False a (drop i ''William.Gibson.Neuromancer''))
                    [map Literal ''GIBSON''])
       [0..<Suc (length ''William.Gibson.Neuromancer'')]"
  by code_simp

lemma example_alternatives:
  "parse_pattern ''gibson|jane'' = Some (Inr [map Literal ''gibson'', map Literal ''jane''])"
  "list_ex (\<lambda>i. list_ex (\<lambda>a. match_here True a (drop i ''William.Gibson.Neuromancer''))
              [map Literal ''gibson'', map Literal ''jane''])
       [0..<Suc (length ''William.Gibson.Neuromancer'')]"
  "list_ex (\<lambda>i. list_ex (\<lambda>a. match_here True a (drop i ''jane.austen.pride''))
              [map Literal ''gibson'', map Literal ''jane''])
       [0..<Suc (length ''jane.austen.pride'')]"
  by code_simp+

lemma filter_texts_literal:
  assumes "\<forall>c \<in> set p. c \<notin> set syntax_characters"
  shows "filter_texts (with_simple_patterns rest) ts p
           = Inr (filter (\<lambda>m. sublist (map canonicalize p) (map canonicalize (name m))) ts)"
proof -
  have "filter_texts (with_simple_patterns rest) ts p
      = Inr (filter (\<lambda>m. \<exists>pre mid post. name m = pre @ mid @ post \<and>
                (\<exists>a \<in> set [map Literal p]. list_all2 (atom_matches True) a mid)) ts)"
    by (rule filter_texts_simple [OF parse_literal [OF assms]])
  also have "(\<lambda>m. \<exists>pre mid post. name m = pre @ mid @ post \<and>
                (\<exists>a \<in> set [map Literal p]. list_all2 (atom_matches True) a mid))
      = (\<lambda>m. sublist (map canonicalize p) (map canonicalize (name m)))"
    using literal_substring [of _ p] by (intro ext) simp
  finally show ?thesis .
qed

text \<open>
  C5: when the pattern compiles under the flag \<^verbatim>\<open>i\<close>, filter returns, in the order
  of the document list, exactly the descriptors in whose name the compiled expression
  matches at some start index. On an engine that treats the simple patterns as
  ECMAScript does, whatever it does on the others, these are for a simple pattern the
  names with a substring that an alternative of the pattern matches character by
  character under case folding, and for a pattern of ordinary characters the names that contain the pattern
  up to the case of letters. Of the documents named \<^verbatim>\<open>William.Gibson.Neuromancer\<close>
  and \<^verbatim>\<open>jane.austen.pride\<close>, the patterns \<^verbatim>\<open>gibson\<close> and \<^verbatim>\<open>GIBSON\<close> each select
  the first alone and \<^verbatim>\<open>gibson|jane\<close> selects both; compiled without the flag,
  \<^verbatim>\<open>GIBSON\<close> is not found in the first name.
\<close>

theorem filter_semantics:
  "(RegExp eng p ''i'' = Inr r \<longrightarrow>
      filter_texts eng ts p
        = Inr (filter (\<lambda>m. \<exists>i \<le> length (name m). matcher eng r (name m) i = Inr True \<and>
                              (\<forall>j < i. matcher eng r (name m) j = Inr False)) ts)) \<and>
   (parse_pattern p = Some (Inr alts) \<longrightarrow>
      filter_texts (with_simple_patterns rest) ts p
        = Inr (filter (\<lambda>m. \<exists>pre mid post. name m = pre @ mid @ post \<and>
                              (\<exists>a \<in> set alts. list_all2 (atom_matches True) a mid)) ts)) \<and>
   ((\<forall>c \<in> set p. c \<notin> set syntax_characters) \<longrightarrow>
      filter_texts (with_simple_patterns rest) ts p
        = Inr (filter (\<lambda>m. sublist (map canonicalize p) (map canonicalize (name m))) ts)) \<and>
   filter_texts (with_simple_patterns rest)
       [make_descriptor ''/corpus'' ''/corpus/William.Gibson.Neuromancer.txt'',
        make_descriptor ''/corpus'' ''/corpus/jane.austen.pride.txt''] ''gibson''
     = Inr [make_descriptor ''/corpus'' ''/corpus/William.Gibson.Neuromancer.txt''] \<and>
   filter_texts (with_simple_patterns rest)
       [make_descriptor ''/corpus'' ''/corpus/William.Gibson.Neuromancer.txt'',
        make_descriptor ''/corpus'' ''/corpus/jane.austen.pride.txt''] ''GIBSON''
     = Inr [make_descriptor ''/corpus'' ''/corpus/William.Gibson.Neuromancer.txt''] \<and>
   filter_texts (with_simple_patterns rest)
       [make_descriptor ''/corpus'' ''/corpus/William.Gibson.Neuromancer.txt'',
        make_descriptor ''/corpus'' ''/corpus/jane.austen.pride.txt''] ''gibson|jane''
     = Inr [make_descriptor ''/corpus'' ''/corpus/William.Gibson.Neuromancer.txt'',
            make_descriptor ''/corpus'' ''/corpus/jane.austen.pride.txt''] \<and>
   RegExp (with_simple_patterns rest) ''GIBSON'' [] = Inr (Inl (False, [map Literal ''GIBSON''])) \<and>
   match_found (with_simple_patterns rest) ''William.Gibson.Neuromancer''
       (Inl (False, [map Literal ''GIBSON''])) = Inr False"
proof (intro conjI impI)
  assume "RegExp eng p ''i'' = Inr r"
  then show "filter_texts eng ts p
      = Inr (filter (\<lambda>m. \<exists>i \<le> length (name m). matcher eng r (name m) i = Inr True \<and>
                            (\<forall>j < i. matcher eng r (name m) j = Inr False)) ts)"
    by (simp only: filter_texts_compiled match_found_True)
next
  assume "parse_pattern p = Some (Inr alts)"
  then show "filter_texts (with_simple_patterns rest) ts p
      = Inr (filter (\<lambda>m. \<exists>pre mid post. name m = pre @ mid @ post \<and>
                            (\<exists>a \<in> set alts. list_all2 (atom_matches True) a mid)) ts)"
    by (rule filter_texts_simple)
next
  assume "\<forall>c \<in> set p. c \<notin> set syntax_characters"
  then show "filter_texts (with_simple_patterns rest) ts p
      = Inr (filter (\<lambda>m. sublist (map canonicalize p) (map canonicalize (name m))) ts)"
    by (rule filter_texts_literal)
next
  show "filter_texts (with_simple_patterns rest)
       [make_descriptor ''/corpus'' ''/corpus/William.Gibson.Neuromancer.txt'',
        make_descriptor ''/corpus'' ''/corpus/jane.austen.pride.txt''] ''gibson''
     = Inr [make_descriptor ''/corpus'' ''/corpus/William.Gibson.Neuromancer.txt'']"
    unfolding filter_texts_literal [OF example_literal(1)]
    by (simp only: example_names example_sublist filter.simps if_True if_False)
next
  show "filter_texts (with_simple_patterns rest)
       [make_descriptor ''/corpus'' ''/corpus/William.Gibson.Neuromancer.txt'',
        make_descriptor ''/corpus'' ''/corpus/jane.austen.pride.txt''] ''GIBSON''
     = Inr [make_descriptor ''/corpus'' ''/corpus/William.Gibson.Neuromancer.txt'']"
    unfolding filter_texts_literal [OF example_literal(2)]
    by (simp only: example_names example_sublist filter.simps if_True if_False)
next
  have "filter_texts (with_simple_patterns rest)
       [make_descriptor ''/corpus'' ''/corpus/William.Gibson.Neuromancer.txt'',
        make_descriptor ''/corpus'' ''/corpus/jane.austen.pride.txt''] ''gibson|jane''
     = Inr (filter (\<lambda>m. match_found (with_simple_patterns rest) (name m)
                (Inl (True, [map Literal ''gibson'', map Literal ''jane''])) = Inr True)
         [make_descriptor ''/corpus'' ''/corpus/William.Gibson.Neuromancer.txt'',
          make_descriptor ''/corpus'' ''/corpus/jane.austen.pride.txt''])"
    by (rule filter_texts_compiled) (rule simple_RegExp(1) [OF example_alternatives(1)])
  also have "\<dots> = Inr [make_descriptor ''/corpus'' ''/corpus/William.Gibson.Neuromancer.txt'',
                       make_descriptor ''/corpus'' ''/corpus/jane.austen.pride.txt'']"
    unfolding simple_match_found
    by (simp only: example_names example_alternatives filter.simps if_True simp_thms)
  finally show "filter_texts (with_simple_patterns rest)
       [make_descriptor ''/corpus'' ''/corpus/William.Gibson.Neuromancer.txt'',
        make_descriptor ''/corpus'' ''/corpus/jane.austen.pride.txt''] ''gibson|jane''
     = Inr [make_descriptor ''/corpus'' ''/corpus/William.Gibson.Neuromancer.txt'',
            make_descriptor ''/corpus'' ''/corpus/jane.austen.pride.txt'']" .
next
  have "parse_pattern ''GIBSON'' = Some (Inr [map Literal ''GIBSON''])"
    by (rule parse_literal [OF example_literal(2)])
  then show "RegExp (with_simple_patterns rest) ''GIBSON'' []
      = Inr (Inl (False, [map Literal ''GIBSON'']))"
    by (simp add: with_simple_patterns_def)
next
  show "match_found (with_simple_patterns rest) ''William.Gibson.Neuromancer''
       (Inl (False, [map Literal ''GIBSON''])) = Inr False"
    unfolding simple_match_found using example_case_sensitive by (simp only: simp_thms)
qed

theorem filter_semantics_witness:
  "RegExp (with_simple_patterns example_engine) ''gibson'' ''i''
     = Inr (Inl (True, [map Literal ''gibson''])) \<and>
   parse_pattern ''gibson'' = Some (Inr [map Literal ''gibson'']) \<and>
   set ''gibson'' \<inter> set syntax_characters = {} \<and>
   filter_texts (with_simple_patterns example_engine)
       [make_descriptor ''/corpus'' ''/corpus/William.Gibson.Neuromancer.txt'',
        make_descriptor ''/corpus'' ''/corpus/jane.austen.pride.txt''] ''gibson''
     = Inr (filter (\<lambda>m. sublist (map canonicalize ''gibson'') (map canonicalize (name m)))
         [make_descriptor ''/corpus'' ''/corpus/William.Gibson.Neuromancer.txt'',
          make_descriptor ''/corpus'' ''/corpus/jane.austen.pride.txt'']) \<and>
   filter_texts (with_simple_patterns example_engine)
       [make_descriptor ''/corpus'' ''/corpus/William.Gibson.Neuromancer.txt'',
        make_descriptor ''/corpus'' ''/corpus/jane.austen.pride.txt''] ''gibson''
     = Inr (filter (\<lambda>m. \<exists>i \<le> length (name m).
             matcher (with_simple_patterns example_engine)
               (Inl (True, [map Literal ''gibson''])) (name m) i = Inr True \<and>
             (\<forall>j < i. matcher (with_simple_patterns example_engine)
               (Inl (True, [map Literal ''gibson''])) (name m) j = Inr False))
         [make_descriptor ''/corpus'' ''/corpus/William.Gibson.Neuromancer.txt'',
          make_descriptor ''/corpus'' ''/corpus/jane.austen.pride.txt''])"
proof -
  have lit: "\<forall>c \<in> set ''gibson''. c \<notin> set syntax_characters"
    by (rule example_literal(1))
  have parse: "parse_pattern ''gibson'' = Some (Inr [map Literal ''gibson''])"
    by (rule parse_literal [OF lit])
  have comp: "RegExp (with_simple_patterns example_engine) ''gibson'' ''i''
      = Inr (Inl (True, [map Literal ''gibson'']))"
    by (rule simple_RegExp(1) [OF parse])
  note sem = filter_semantics [where eng = "with_simple_patterns example_engine"
      and rest = example_engine and p = "''gibson''"
      and r = "Inl (True, [map Literal ''gibson''])" and alts = "[map Literal ''gibson'']"
      and ts = "[make_descriptor ''/corpus'' ''/corpus/William.Gibson.Neuromancer.txt'',
                 make_descriptor ''/corpus'' ''/corpus/jane.austen.pride.txt'']"]
  show ?thesis
  proof (intro conjI)
    show "RegExp (with_simple_patterns example_engine) ''gibson'' ''i''
        = Inr (Inl (True, [map Literal ''gibson'']))"
      by (rule comp)
    show "parse_pattern ''gibson'' = Some (Inr [map Literal ''gibson''])"
      by (rule parse)
    show "set ''gibson'' \<inter> set syntax_characters = {}"
      by (simp add: syntax_characters_def)
    show "filter_texts (with_simple_patterns example_engine)
       [make_descriptor ''/corpus'' ''/corpus/William.Gibson.Neuromancer.txt'',
        make_descriptor ''/corpus'' ''/corpus/jane.austen.pride.txt''] ''gibson''
     = Inr (filter (\<lambda>m. sublist (map canonicalize ''gibson'') (map canonicalize (name m)))
         [make_descriptor ''/corpus'' ''/corpus/William.Gibson.Neuromancer.txt'',
          make_descriptor ''/corpus'' ''/corpus/jane.austen.pride.txt''])"
      by (rule sem [THEN conjunct2, THEN conjunct2, THEN conjunct1, THEN mp, OF lit])
    show "filter_texts (with_simple_patterns example_engine)
       [make_descriptor ''/corpus'' ''/corpus/William.Gibson.Neuromancer.txt'',
        make_descriptor ''/corpus'' ''/corpus/jane.austen.pride.txt''] ''gibson''
     = Inr (filter (\<lambda>m. \<exists>i \<le> length (name m).
             matcher (with_simple_patterns example_engine)
               (Inl (True, [map Literal ''gibson''])) (name m) i = Inr True \<and>
             (\<forall>j < i. matcher (with_simple_patterns example_engine)
               (Inl (True, [map Literal ''gibson''])) (name m) j = Inr False))
         [make_descriptor ''/corpus'' ''/corpus/William.Gibson.Neuromancer.txt'',
          make_descriptor ''/corpus'' ''/corpus/jane.austen.pride.txt''])"
      by (rule sem [THEN conjunct1, THEN mp, OF comp])
  qed
qed

end
